theory Spec2Isabelle
  imports Main "HOL-Library.Sublist"
begin

section \<open>Python values used by brdoc\<close>

text \<open>
  A Python \<open>str\<close> is a sequence of Unicode code points, and \<open>len\<close>, indexing and
  slicing count code points. A character is therefore modelled by its code point
  (a natural number), not by an 8-bit \<open>char\<close>.
\<close>

type_synonym pystr = "nat list"

definition ascii :: "string \<Rightarrow> pystr" where
  "ascii s = map of_char s"

text \<open>
  The exceptions that the modelled code can raise. \<open>InvalidCPFError\<close> and
  \<open>InvalidCNPJError\<close> (\<open>brdoc/exceptions.py\<close>) carry their message; \<open>IndexError\<close>
  is what an out-of-range subscript raises and \<open>ValueError\<close> what \<open>int\<close> raises on a
  character that is not a decimal digit.
\<close>

datatype error = InvalidCPFError pystr | InvalidCNPJError pystr | IndexError | ValueError

definition bind_e :: "error + 'a \<Rightarrow> ('a \<Rightarrow> error + 'b) \<Rightarrow> error + 'b" where
  "bind_e m f = (case m of Inl e \<Rightarrow> Inl e | Inr v \<Rightarrow> f v)"

text \<open>\<open>xs[i]\<close> for a non-negative index.\<close>

definition getitem :: "'a list \<Rightarrow> nat \<Rightarrow> error + 'a" where
  "getitem xs i = (if i < length xs then Inr (xs ! i) else Inl IndexError)"

text \<open>The slice \<open>xs[a:b]\<close> for non-negative bounds; \<open>xs[:b]\<close> is \<open>slice xs 0 b\<close> and
  \<open>xs[a:]\<close> is \<open>drop a xs\<close>.\<close>

definition slice :: "'a list \<Rightarrow> nat \<Rightarrow> nat \<Rightarrow> 'a list" where
  "slice xs a b = take (b - a) (drop a xs)"

text \<open>
  The first code point of every run of ten characters of Unicode general category
  \<open>Nd\<close> (decimal digit), in the Unicode 14.0 database of CPython 3.11. The run that
  starts at \<open>s\<close> holds the digits of value 0 to 9 at \<open>s\<close> to \<open>s + 9\<close>. The first entry,
  48, is the ASCII run \<open>'0'\<close> to \<open>'9'\<close>; 1632 is ARABIC-INDIC DIGIT ZERO (U+0660).
\<close>

definition nd_starts :: "nat list" where
  "nd_starts =
    [48, 1632, 1776, 1984, 2406, 2534, 2662, 2790, 2918, 3046, 3174, 3302, 3430,
     3558, 3664, 3792, 3872, 4160, 4240, 6112, 6160, 6470, 6608, 6784, 6800, 6992,
     7088, 7232, 7248, 42528, 43216, 43264, 43472, 43504, 43600, 44016, 65296,
     66720, 68912, 69734, 69872, 69942, 70096, 70384, 70736, 70864, 71248, 71360,
     71472, 71904, 72016, 72784, 73040, 73120, 92768, 92864, 93008, 120782, 120792,
     120802, 120812, 120822, 123200, 123632, 125264, 130032]"

text \<open>
  The decimal value of a character, if it has one. Both the pattern \<open>\d\<close> of a
  \<open>str\<close> regular expression and \<open>int\<close> decide by this table.
\<close>

definition unicode_decimal :: "nat \<Rightarrow> nat option" where
  "unicode_decimal c =
     map_option (\<lambda>s. c - s) (List.find (\<lambda>s. s \<le> c \<and> c < s + 10) nd_starts)"

definition is_decimal :: "nat \<Rightarrow> bool" where
  "is_decimal c = (unicode_decimal c \<noteq> None)"

text \<open>\<open>int(c)\<close> for a string \<open>c\<close> of one character.\<close>

definition py_int :: "nat \<Rightarrow> error + int" where
  "py_int c = (case unicode_decimal c of None \<Rightarrow> Inl ValueError | Some v \<Rightarrow> Inr (int v))"

text \<open>\<open>str(n)\<close> for an integer \<open>n\<close>.\<close>

fun str_nat :: "nat \<Rightarrow> pystr" where
  "str_nat n = (if n < 10 then [48 + n] else str_nat (n div 10) @ [48 + n mod 10])"

declare str_nat.simps [simp del]

definition py_str :: "int \<Rightarrow> pystr" where
  "py_str n = (if n < 0 then 45 # str_nat (nat (- n)) else str_nat (nat n))"

text \<open>
  \<open>sum(f(i) for i in ks)\<close>: the generator is consumed from the left, the running
  total starts at 0, and an exception raised while computing a term ends the sum.
\<close>

fun py_sum :: "(nat \<Rightarrow> error + int) \<Rightarrow> nat list \<Rightarrow> int \<Rightarrow> error + int" where
  "py_sum f [] acc = Inr acc"
| "py_sum f (k # ks) acc = bind_e (f k) (\<lambda>v. py_sum f ks (acc + v))"

text \<open>\<open>re.sub(r"\D", "", s)\<close>: every character that \<open>\d\<close> does not match is removed.\<close>

definition re_sub_nondigits :: "pystr \<Rightarrow> pystr" where
  "re_sub_nondigits s = filter is_decimal s"

text \<open>\<open>int(digits[i])\<close>: the subscript, then the conversion.\<close>

definition int_at :: "pystr \<Rightarrow> nat \<Rightarrow> error + int" where
  "int_at ds i = bind_e (getitem ds i) py_int"

section \<open>CPF (\<open>brdoc/cpf.py\<close>)\<close>

record CPF =
  cpf_original :: pystr
  cpf_digits :: pystr

definition CPF_clean :: "pystr \<Rightarrow> pystr" where
  "CPF_clean cpf = re_sub_nondigits cpf"

definition CPF_init :: "pystr \<Rightarrow> CPF" where
  "CPF_init cpf = \<lparr>cpf_original = cpf, cpf_digits = CPF_clean cpf\<rparr>"

definition CPF_digits :: "CPF \<Rightarrow> pystr" where
  "CPF_digits self = cpf_digits self"

definition CPF_formatted :: "CPF \<Rightarrow> error + pystr" where
  "CPF_formatted self =
     (if length (cpf_digits self) \<noteq> 11
      then Inl (InvalidCPFError
                 (ascii ''CPF must have 11 digits, got '' @ py_str (int (length (cpf_digits self)))))
      else Inr (slice (cpf_digits self) 0 3 @ ascii ''.'' @ slice (cpf_digits self) 3 6 @ ascii ''.''
                @ slice (cpf_digits self) 6 9 @ ascii ''-'' @ drop 9 (cpf_digits self)))"

definition CPF_validate_check_digits :: "CPF \<Rightarrow> error + bool" where
  "CPF_validate_check_digits self =
     bind_e (py_sum (\<lambda>i. bind_e (int_at (cpf_digits self) i) (\<lambda>v. Inr (v * (10 - int i)))) [0..<9] 0)
       (\<lambda>sum_first.
          let first_digit = (sum_first * 10) mod 11;
              first_digit = (if first_digit = 10 then 0 else first_digit) in
          bind_e (int_at (cpf_digits self) 9)
            (\<lambda>d9.
               if d9 \<noteq> first_digit then Inr False
               else
                 bind_e (py_sum (\<lambda>i. bind_e (int_at (cpf_digits self) i) (\<lambda>v. Inr (v * (11 - int i))))
                           [0..<10] 0)
                   (\<lambda>sum_second.
                      let second_digit = (sum_second * 10) mod 11;
                          second_digit = (if second_digit = 10 then 0 else second_digit) in
                      bind_e (int_at (cpf_digits self) 10) (\<lambda>d10. Inr (d10 = second_digit)))))"

definition CPF_is_valid :: "CPF \<Rightarrow> error + bool" where
  "CPF_is_valid self =
     (if length (cpf_digits self) \<noteq> 11 then Inr False
      else
        bind_e (getitem (cpf_digits self) 0)
          (\<lambda>c0. if cpf_digits self = replicate 11 c0 then Inr False
                else CPF_validate_check_digits self))"

definition CPF_validate :: "pystr \<Rightarrow> error + bool" where
  "CPF_validate cpf = CPF_is_valid (CPF_init cpf)"

text \<open>
  \<open>generate\<close> reads nine results of \<open>random.randint(0, 9)\<close>; they are the argument
  \<open>draws\<close>, which is the list \<open>base_digits\<close> before the check digits are appended.
\<close>

definition CPF_generate :: "bool \<Rightarrow> int list \<Rightarrow> error + CPF" where
  "CPF_generate formatted draws =
     (let base_digits = draws in
      bind_e (py_sum (\<lambda>i. bind_e (getitem base_digits i) (\<lambda>b. Inr (b * (10 - int i)))) [0..<9] 0)
        (\<lambda>sum_first.
           let first_digit = (sum_first * 10) mod 11;
               first_digit = (if first_digit = 10 then 0 else first_digit);
               base_digits = base_digits @ [first_digit] in
           bind_e (py_sum (\<lambda>i. bind_e (getitem base_digits i) (\<lambda>b. Inr (b * (11 - int i)))) [0..<10] 0)
             (\<lambda>sum_second.
                let second_digit = (sum_second * 10) mod 11;
                    second_digit = (if second_digit = 10 then 0 else second_digit);
                    base_digits = base_digits @ [second_digit];
                    cpf_str = concat (map py_str base_digits) in
                Inr (CPF_init cpf_str))))"

definition CPF_str :: "CPF \<Rightarrow> error + pystr" where
  "CPF_str self =
     (case CPF_formatted self of
        Inr s \<Rightarrow> Inr s
      | Inl (InvalidCPFError m) \<Rightarrow> Inr (cpf_digits self)
      | Inl e \<Rightarrow> Inl e)"

definition CPF_repr :: "CPF \<Rightarrow> pystr" where
  "CPF_repr self = ascii ''CPF('' @ [39] @ cpf_original self @ [39] @ ascii '')''"

section \<open>CNPJ (\<open>brdoc/cnpj.py\<close>)\<close>

record CNPJ =
  cnpj_original :: pystr
  cnpj_digits :: pystr

definition CNPJ_clean :: "pystr \<Rightarrow> pystr" where
  "CNPJ_clean cnpj = re_sub_nondigits cnpj"

definition CNPJ_init :: "pystr \<Rightarrow> CNPJ" where
  "CNPJ_init cnpj = \<lparr>cnpj_original = cnpj, cnpj_digits = CNPJ_clean cnpj\<rparr>"

definition CNPJ_digits :: "CNPJ \<Rightarrow> pystr" where
  "CNPJ_digits self = cnpj_digits self"

definition CNPJ_formatted :: "CNPJ \<Rightarrow> error + pystr" where
  "CNPJ_formatted self =
     (if length (cnpj_digits self) \<noteq> 14
      then Inl (InvalidCNPJError
                 (ascii ''CNPJ must have 14 digits, got '' @ py_str (int (length (cnpj_digits self)))))
      else Inr (slice (cnpj_digits self) 0 2 @ ascii ''.'' @ slice (cnpj_digits self) 2 5 @ ascii ''.''
                @ slice (cnpj_digits self) 5 8 @ ascii ''/'' @ slice (cnpj_digits self) 8 12
                @ ascii ''-'' @ drop 12 (cnpj_digits self)))"

definition CNPJ_validate_check_digits :: "CNPJ \<Rightarrow> error + bool" where
  "CNPJ_validate_check_digits self =
     (let weights_first = [5, 4, 3, 2, 9, 8, 7, 6, 5, 4, 3, 2] in
      bind_e (py_sum (\<lambda>i. bind_e (int_at (cnpj_digits self) i)
                             (\<lambda>v. bind_e (getitem weights_first i) (\<lambda>w. Inr (v * w))))
                [0..<12] 0)
        (\<lambda>sum_first.
           let first_digit = sum_first mod 11;
               first_digit = (if first_digit < 2 then 0 else 11 - first_digit) in
           bind_e (int_at (cnpj_digits self) 12)
             (\<lambda>d12.
                if d12 \<noteq> first_digit then Inr False
                else
                  let weights_second = [6, 5, 4, 3, 2, 9, 8, 7, 6, 5, 4, 3, 2] in
                  bind_e (py_sum (\<lambda>i. bind_e (int_at (cnpj_digits self) i)
                                         (\<lambda>v. bind_e (getitem weights_second i) (\<lambda>w. Inr (v * w))))
                            [0..<13] 0)
                    (\<lambda>sum_second.
                       let second_digit = sum_second mod 11;
                           second_digit = (if second_digit < 2 then 0 else 11 - second_digit) in
                       bind_e (int_at (cnpj_digits self) 13) (\<lambda>d13. Inr (d13 = second_digit))))))"

definition CNPJ_is_valid :: "CNPJ \<Rightarrow> error + bool" where
  "CNPJ_is_valid self =
     (if length (cnpj_digits self) \<noteq> 14 then Inr False
      else
        bind_e (getitem (cnpj_digits self) 0)
          (\<lambda>c0. if cnpj_digits self = replicate 14 c0 then Inr False
                else CNPJ_validate_check_digits self))"

definition CNPJ_validate :: "pystr \<Rightarrow> error + bool" where
  "CNPJ_validate cnpj = CNPJ_is_valid (CNPJ_init cnpj)"

text \<open>As for CPF, with twelve results of \<open>random.randint(0, 9)\<close>.\<close>

definition CNPJ_generate :: "bool \<Rightarrow> int list \<Rightarrow> error + CNPJ" where
  "CNPJ_generate formatted draws =
     (let base_digits = draws;
          weights_first = [5, 4, 3, 2, 9, 8, 7, 6, 5, 4, 3, 2] in
      bind_e (py_sum (\<lambda>i. bind_e (getitem base_digits i)
                             (\<lambda>b. bind_e (getitem weights_first i) (\<lambda>w. Inr (b * w))))
                [0..<12] 0)
        (\<lambda>sum_first.
           let first_digit = sum_first mod 11;
               first_digit = (if first_digit < 2 then 0 else 11 - first_digit);
               base_digits = base_digits @ [first_digit];
               weights_second = [6, 5, 4, 3, 2, 9, 8, 7, 6, 5, 4, 3, 2] in
           bind_e (py_sum (\<lambda>i. bind_e (getitem base_digits i)
                                  (\<lambda>b. bind_e (getitem weights_second i) (\<lambda>w. Inr (b * w))))
                     [0..<13] 0)
             (\<lambda>sum_second.
                let second_digit = sum_second mod 11;
                    second_digit = (if second_digit < 2 then 0 else 11 - second_digit);
                    base_digits = base_digits @ [second_digit];
                    cnpj_str = concat (map py_str base_digits) in
                Inr (CNPJ_init cnpj_str))))"

definition CNPJ_str :: "CNPJ \<Rightarrow> error + pystr" where
  "CNPJ_str self =
     (case CNPJ_formatted self of
        Inr s \<Rightarrow> Inr s
      | Inl (InvalidCNPJError m) \<Rightarrow> Inr (cnpj_digits self)
      | Inl e \<Rightarrow> Inl e)"

definition CNPJ_repr :: "CNPJ \<Rightarrow> pystr" where
  "CNPJ_repr self = ascii ''CNPJ('' @ [39] @ cnpj_original self @ [39] @ ascii '')''"

section \<open>Equality and hashing\<close>

text \<open>
  \<open>__eq__\<close> takes any object and tests its class first. \<open>__hash__\<close> is the built-in
  \<open>hash\<close> of the digits string; the built-in is the parameter \<open>hash\<close>.
\<close>

datatype object = CPF_object CPF | CNPJ_object CNPJ | Other_object

definition CPF_eq :: "CPF \<Rightarrow> object \<Rightarrow> bool" where
  "CPF_eq self other =
     (case other of CPF_object other' \<Rightarrow> cpf_digits self = cpf_digits other' | _ \<Rightarrow> False)"

definition CPF_hash :: "(pystr \<Rightarrow> int) \<Rightarrow> CPF \<Rightarrow> int" where
  "CPF_hash hash self = hash (cpf_digits self)"

definition CNPJ_eq :: "CNPJ \<Rightarrow> object \<Rightarrow> bool" where
  "CNPJ_eq self other =
     (case other of CNPJ_object other' \<Rightarrow> cnpj_digits self = cnpj_digits other' | _ \<Rightarrow> False)"

definition CNPJ_hash :: "(pystr \<Rightarrow> int) \<Rightarrow> CNPJ \<Rightarrow> int" where
  "CNPJ_hash hash self = hash (cnpj_digits self)"

section \<open>The specification's wording of the checks\<close>

text \<open>
  The check digits as section 4.2 of the specification words them, over the list \<open>d\<close>
  of the values of a document's digits, and the second check of the validity
  predicate (the digits are all one identical character).
\<close>

definition spec_cpf_first :: "int list \<Rightarrow> int" where
  "spec_cpf_first d =
     (let remainder = ((\<Sum>i\<leftarrow>[0..<9]. d ! i * (10 - int i)) * 10) mod 11
      in if remainder = 10 then 0 else remainder)"

definition spec_cpf_second :: "int list \<Rightarrow> int" where
  "spec_cpf_second d =
     (let remainder = ((\<Sum>i\<leftarrow>[0..<10]. d ! i * (11 - int i)) * 10) mod 11
      in if remainder = 10 then 0 else remainder)"

definition w1 :: "int list" where
  "w1 = [5, 4, 3, 2, 9, 8, 7, 6, 5, 4, 3, 2]"

definition w2 :: "int list" where
  "w2 = [6, 5, 4, 3, 2, 9, 8, 7, 6, 5, 4, 3, 2]"

definition spec_cnpj_first :: "int list \<Rightarrow> int" where
  "spec_cnpj_first d =
     (let r = (\<Sum>i\<leftarrow>[0..<12]. d ! i * w1 ! i) mod 11
      in if r < 2 then 0 else 11 - r)"

definition spec_cnpj_second :: "int list \<Rightarrow> int" where
  "spec_cnpj_second d =
     (let r = (\<Sum>i\<leftarrow>[0..<13]. d ! i * w2 ! i) mod 11
      in if r < 2 then 0 else 11 - r)"

definition all_identical :: "'a list \<Rightarrow> bool" where
  "all_identical ds = (ds = replicate (length ds) (hd ds))"

section \<open>Evaluation lemmas\<close>

lemma bind_e_Inr [simp]: "bind_e (Inr v) f = f v"
  by (simp add: bind_e_def)

lemma bind_e_Inl [simp]: "bind_e (Inl e) f = Inl e"
  by (simp add: bind_e_def)

lemma find_none_above:
  "\<forall>s \<in> set xs. c < s \<Longrightarrow> List.find (\<lambda>s. s \<le> c \<and> c < s + 10) xs = None" for c :: nat
  by (induction xs) auto

text \<open>Below U+0660 the only decimal digits are the ASCII ones.\<close>

lemma unicode_decimal_low:
  assumes "c < 1632"
  shows "unicode_decimal c = (if 48 \<le> c \<and> c < 58 then Some (c - 48) else None)"
proof -
  define rest where "rest = tl nd_starts"
  have eq: "nd_starts = 48 # rest"
    by (simp add: rest_def nd_starts_def)
  have "List.find (\<lambda>s. s \<le> c \<and> c < s + 10) rest = None"
    using assms unfolding rest_def by (intro find_none_above) (simp add: nd_starts_def)
  then show ?thesis
    unfolding unicode_decimal_def eq by simp
qed

lemma is_decimal_low: "c < 1632 \<Longrightarrow> is_decimal c = (48 \<le> c \<and> c < 58)"
  by (simp add: is_decimal_def unicode_decimal_low)

lemma py_int_low:
  "c < 1632 \<Longrightarrow> py_int c = (if 48 \<le> c \<and> c < 58 then Inr (int (c - 48)) else Inl ValueError)"
  by (simp add: py_int_def unicode_decimal_low)

lemma unicode_decimal_lt_10: "unicode_decimal c = Some v \<Longrightarrow> v < 10"
  by (auto simp: unicode_decimal_def find_Some_iff)

lemma ascii_Nil: "ascii [] = []"
  by (simp add: ascii_def)

lemma ascii_Cons: "ascii (c # cs) = of_char c # ascii cs"
  by (simp add: ascii_def)

lemma replicate_11: "replicate 11 c = [c, c, c, c, c, c, c, c, c, c, c]"
  by (simp add: eval_nat_numeral)

lemma replicate_14: "replicate 14 c = [c, c, c, c, c, c, c, c, c, c, c, c, c, c]"
  by (simp add: eval_nat_numeral)

lemmas ascii_simps = ascii_Nil ascii_Cons

lemmas cpf_eval = CPF_is_valid_def CPF_validate_check_digits_def CPF_init_def CPF_clean_def
  CPF_digits_def re_sub_nondigits_def is_decimal_low py_int_low int_at_def getitem_def upt_rec
  Let_def replicate_11

lemmas cnpj_eval = CNPJ_is_valid_def CNPJ_validate_check_digits_def CNPJ_init_def CNPJ_clean_def
  CNPJ_digits_def re_sub_nondigits_def is_decimal_low py_int_low int_at_def getitem_def upt_rec
  Let_def replicate_14

section \<open>Concrete vectors\<close>

lemma vector_cpf_valid: "CPF_is_valid (CPF_init (ascii ''111.444.777-35'')) = Inr True"
  by (simp add: ascii_simps cpf_eval)

lemma vector_cpf_invalid: "CPF_is_valid (CPF_init (ascii ''111.444.777-36'')) = Inr False"
  by (simp add: ascii_simps cpf_eval)

lemma vector_cnpj_valid: "CNPJ_is_valid (CNPJ_init (ascii ''11.222.333/0001-81'')) = Inr True"
  by (simp add: ascii_simps cnpj_eval)

lemma vector_cnpj_invalid: "CNPJ_is_valid (CNPJ_init (ascii ''11.222.333/0001-82'')) = Inr False"
  by (simp add: ascii_simps cnpj_eval)

lemma vector_cpf_empty: "CPF_is_valid (CPF_init (ascii '''')) = Inr False"
  by (simp add: ascii_simps cpf_eval)

lemma vector_cnpj_letters:
  "CNPJ_digits (CNPJ_init (ascii ''11ABC222DEF333GHI0001IJK81'')) = ascii ''11222333000181''"
  by (simp add: ascii_simps cnpj_eval)

text \<open>
  Claim C9. The concrete vectors of the specification hold: the CPF
  \<open>111.444.777-35\<close> is valid and \<open>111.444.777-36\<close> is not; the CNPJ
  \<open>11.222.333/0001-81\<close> is valid and \<open>11.222.333/0001-82\<close> is not; the empty CPF is
  not valid; and the digits of the CNPJ \<open>11ABC222DEF333GHI0001IJK81\<close> are
  \<open>11222333000181\<close>.
\<close>

theorem concrete_vectors:
  "CPF_is_valid (CPF_init (ascii ''111.444.777-35'')) = Inr True
   \<and> CPF_is_valid (CPF_init (ascii ''111.444.777-36'')) = Inr False
   \<and> CNPJ_is_valid (CNPJ_init (ascii ''11.222.333/0001-81'')) = Inr True
   \<and> CNPJ_is_valid (CNPJ_init (ascii ''11.222.333/0001-82'')) = Inr False
   \<and> CPF_is_valid (CPF_init (ascii '''')) = Inr False
   \<and> CNPJ_digits (CNPJ_init (ascii ''11ABC222DEF333GHI0001IJK81'')) = ascii ''11222333000181''"
  using vector_cpf_valid vector_cpf_invalid vector_cnpj_valid vector_cnpj_invalid
    vector_cpf_empty vector_cnpj_letters
  by blast

section \<open>The generator's unused parameter\<close>

text \<open>
  Claim C10. The parameter \<open>formatted\<close> of \<open>generate\<close> has no effect: on the same
  random draws, \<open>generate(formatted=True)\<close> and \<open>generate(formatted=False)\<close> return
  the same Document Value (the same original string and the same digits, hence values
  that \<open>__eq__\<close> compares equal), for CPF and for CNPJ.
\<close>

theorem generate_formatted_unused:
  "CPF_generate True draws = CPF_generate False draws
   \<and> CNPJ_generate True draws' = CNPJ_generate False draws'"
  by (simp add: CPF_generate_def CNPJ_generate_def)

section \<open>The check digits\<close>

lemma py_sum_total:
  "(\<And>k. k \<in> set ks \<Longrightarrow> f k = Inr (g k)) \<Longrightarrow> py_sum f ks acc = Inr (acc + sum_list (map g ks))"
  by (induction ks arbitrary: acc) (simp_all add: add.assoc)

lemma int_at_values:
  assumes "map py_int ds = map Inr d" and "i < length d"
  shows "int_at ds i = Inr (d ! i)"
proof -
  have len: "length ds = length d"
    using assms(1) by (rule map_eq_imp_length_eq)
  have "py_int (ds ! i) = map py_int ds ! i"
    using assms(2) len by simp
  also have "\<dots> = Inr (d ! i)"
    using assms by simp
  finally show ?thesis
    using assms(2) len by (simp add: int_at_def getitem_def)
qed

lemma CPF_check_digits_values:
  assumes "map py_int (cpf_digits self) = map Inr d" and "length d = 11"
  shows "CPF_validate_check_digits self = Inr (d ! 9 = spec_cpf_first d \<and> d ! 10 = spec_cpf_second d)"
proof -
  let ?ds = "cpf_digits self"
  have at: "int_at ?ds i = Inr (d ! i)" if "i < 11" for i
    using int_at_values [OF assms(1)] that assms(2) by simp
  have s1: "py_sum (\<lambda>i. bind_e (int_at ?ds i) (\<lambda>v. Inr (v * (10 - int i)))) [0..<9] 0
            = Inr (\<Sum>i\<leftarrow>[0..<9]. d ! i * (10 - int i))"
    by (subst py_sum_total [where g = "\<lambda>i. d ! i * (10 - int i)"]) (simp_all add: at)
  have s2: "py_sum (\<lambda>i. bind_e (int_at ?ds i) (\<lambda>v. Inr (v * (11 - int i)))) [0..<10] 0
            = Inr (\<Sum>i\<leftarrow>[0..<10]. d ! i * (11 - int i))"
    by (subst py_sum_total [where g = "\<lambda>i. d ! i * (11 - int i)"]) (simp_all add: at)
  show ?thesis
    unfolding CPF_validate_check_digits_def s1 s2
    by (simp add: at spec_cpf_first_def spec_cpf_second_def Let_def)
qed

lemma CNPJ_check_digits_values:
  assumes "map py_int (cnpj_digits self) = map Inr d" and "length d = 14"
  shows "CNPJ_validate_check_digits self
         = Inr (d ! 12 = spec_cnpj_first d \<and> d ! 13 = spec_cnpj_second d)"
proof -
  let ?ds = "cnpj_digits self"
  have at: "int_at ?ds i = Inr (d ! i)" if "i < 14" for i
    using int_at_values [OF assms(1)] that assms(2) by simp
  have s1: "py_sum (\<lambda>i. bind_e (int_at ?ds i)
                      (\<lambda>v. bind_e (getitem [5, 4, 3, 2, 9, 8, 7, 6, 5, 4, 3, 2] i) (\<lambda>w. Inr (v * w))))
              [0..<12] 0
            = Inr (\<Sum>i\<leftarrow>[0..<12]. d ! i * w1 ! i)"
    by (subst py_sum_total [where g = "\<lambda>i. d ! i * w1 ! i"])
       (simp_all add: at getitem_def w1_def)
  have s2: "py_sum (\<lambda>i. bind_e (int_at ?ds i)
                      (\<lambda>v. bind_e (getitem [6, 5, 4, 3, 2, 9, 8, 7, 6, 5, 4, 3, 2] i) (\<lambda>w. Inr (v * w))))
              [0..<13] 0
            = Inr (\<Sum>i\<leftarrow>[0..<13]. d ! i * w2 ! i)"
    by (subst py_sum_total [where g = "\<lambda>i. d ! i * w2 ! i"])
       (simp_all add: at getitem_def w2_def)
  show ?thesis
    unfolding CNPJ_validate_check_digits_def Let_def s1 s2
    by (simp add: at spec_cnpj_first_def spec_cnpj_second_def Let_def)
qed

text \<open>The digits of a constructed document all have a decimal value, so \<open>int\<close> never
  raises on them.\<close>

lemma clean_values: "\<exists>d. map py_int (re_sub_nondigits s) = map Inr d"
proof (induction s)
  case Nil
  show ?case by (simp add: re_sub_nondigits_def)
next
  case (Cons c s)
  then obtain d where d: "map py_int (re_sub_nondigits s) = map Inr d" ..
  show ?case
  proof (cases "unicode_decimal c")
    case None
    then show ?thesis using d by (auto simp: re_sub_nondigits_def is_decimal_def)
  next
    case (Some v)
    then have "map py_int (re_sub_nondigits (c # s)) = map Inr (int v # d)"
      using d by (simp add: re_sub_nondigits_def is_decimal_def py_int_def)
    then show ?thesis ..
  qed
qed

text \<open>
  Claim C3. For every CPF whose digits string has 11 digits, of values \<open>d\<close> (that is,
  \<open>int(digits[i]) = d[i]\<close>), the check-digit verification returns true iff \<open>d[9]\<close> is
  \<open>((\<Sum>i<9. d[i] * (10 - i)) * 10) mod 11\<close> with 10 mapped to 0 and \<open>d[10]\<close> is
  \<open>((\<Sum>i<10. d[i] * (11 - i)) * 10) mod 11\<close> with 10 mapped to 0, the second sum
  reading the digit at index 9; it never raises.
\<close>

theorem CPF_check_digits_formula:
  assumes "map py_int (cpf_digits self) = map Inr d" and "length d = 11"
  shows "CPF_validate_check_digits self
         = Inr (d ! 9 = spec_cpf_first d \<and> d ! 10 = spec_cpf_second d)"
  using assms by (rule CPF_check_digits_values)

theorem CPF_check_digits_formula_witness:
  "map py_int (cpf_digits (CPF_init (ascii ''111.444.777-35''))) = map Inr [1, 1, 1, 4, 4, 4, 7, 7, 7, 3, 5]
   \<and> length [1, 1, 1, 4, 4, 4, 7, 7, 7, 3, 5 :: int] = 11
   \<and> CPF_validate_check_digits (CPF_init (ascii ''111.444.777-35'')) = Inr True
   \<and> spec_cpf_first [1, 1, 1, 4, 4, 4, 7, 7, 7, 3, 5] = 3
   \<and> spec_cpf_second [1, 1, 1, 4, 4, 4, 7, 7, 7, 3, 5] = 5"
proof -
  have v: "map py_int (cpf_digits (CPF_init (ascii ''111.444.777-35'')))
           = map Inr [1, 1, 1, 4, 4, 4, 7, 7, 7, 3, 5]"
    by (simp add: ascii_simps cpf_eval)
  have l: "length [1, 1, 1, 4, 4, 4, 7, 7, 7, 3, 5 :: int] = 11"
    by simp
  have f: "spec_cpf_first [1, 1, 1, 4, 4, 4, 7, 7, 7, 3, 5] = 3"
    by (simp add: spec_cpf_first_def upt_rec)
  have s: "spec_cpf_second [1, 1, 1, 4, 4, 4, 7, 7, 7, 3, 5] = 5"
    by (simp add: spec_cpf_second_def upt_rec)
  show ?thesis
    using CPF_check_digits_formula [OF v l] v f s by simp
qed

text \<open>
  Claim C4. For every CNPJ whose digits string has 14 digits, of values \<open>d\<close>, the
  check-digit verification returns true iff \<open>d[12]\<close> is the digit obtained from
  \<open>r = (\<Sum>i<12. d[i] * w1[i]) mod 11\<close> (0 when \<open>r < 2\<close>, else \<open>11 - r\<close>) and \<open>d[13]\<close> the
  digit obtained in the same way from \<open>w2\<close> over the positions 0 to 12; it never raises.
\<close>

theorem CNPJ_check_digits_formula:
  assumes "map py_int (cnpj_digits self) = map Inr d" and "length d = 14"
  shows "CNPJ_validate_check_digits self
         = Inr (d ! 12 = spec_cnpj_first d \<and> d ! 13 = spec_cnpj_second d)"
  using assms by (rule CNPJ_check_digits_values)

theorem CNPJ_check_digits_formula_witness:
  "map py_int (cnpj_digits (CNPJ_init (ascii ''11.222.333/0001-81'')))
     = map Inr [1, 1, 2, 2, 2, 3, 3, 3, 0, 0, 0, 1, 8, 1]
   \<and> length [1, 1, 2, 2, 2, 3, 3, 3, 0, 0, 0, 1, 8, 1 :: int] = 14
   \<and> CNPJ_validate_check_digits (CNPJ_init (ascii ''11.222.333/0001-81'')) = Inr True
   \<and> spec_cnpj_first [1, 1, 2, 2, 2, 3, 3, 3, 0, 0, 0, 1, 8, 1] = 8
   \<and> spec_cnpj_second [1, 1, 2, 2, 2, 3, 3, 3, 0, 0, 0, 1, 8, 1] = 1"
proof -
  have v: "map py_int (cnpj_digits (CNPJ_init (ascii ''11.222.333/0001-81'')))
           = map Inr [1, 1, 2, 2, 2, 3, 3, 3, 0, 0, 0, 1, 8, 1]"
    by (simp add: ascii_simps cnpj_eval)
  have l: "length [1, 1, 2, 2, 2, 3, 3, 3, 0, 0, 0, 1, 8, 1 :: int] = 14"
    by simp
  have f: "spec_cnpj_first [1, 1, 2, 2, 2, 3, 3, 3, 0, 0, 0, 1, 8, 1] = 8"
    by (simp add: spec_cnpj_first_def w1_def upt_rec)
  have s: "spec_cnpj_second [1, 1, 2, 2, 2, 3, 3, 3, 0, 0, 0, 1, 8, 1] = 1"
    by (simp add: spec_cnpj_second_def w2_def upt_rec)
  show ?thesis
    using CNPJ_check_digits_formula [OF v l] v f s by simp
qed

section \<open>The validity predicate\<close>

lemma all_identical_iff: "all_identical ds \<longleftrightarrow> (\<exists>c. ds = replicate (length ds) c)"
proof
  assume "all_identical ds"
  then show "\<exists>c. ds = replicate (length ds) c"
    unfolding all_identical_def ..
next
  assume "\<exists>c. ds = replicate (length ds) c"
  then obtain c where c: "ds = replicate (length ds) c" ..
  show "all_identical ds"
  proof (cases ds)
    case Nil
    then show ?thesis by (simp add: all_identical_def)
  next
    case (Cons x xs)
    then have "hd ds = c"
      using c by (metis hd_replicate length_0_conv list.distinct(1))
    then show ?thesis
      using c by (simp add: all_identical_def)
  qed
qed

lemma first_char_check:
  assumes "length ds = n" and "0 < n"
  shows "getitem ds 0 = Inr (hd ds)" and "(ds = replicate n (hd ds)) = all_identical ds"
  using assms by (auto simp: getitem_def hd_conv_nth all_identical_def)

lemma CPF_is_valid_init:
  "CPF_is_valid (CPF_init s)
   = Inr (length (CPF_digits (CPF_init s)) = 11
          \<and> \<not> all_identical (CPF_digits (CPF_init s))
          \<and> CPF_validate_check_digits (CPF_init s) = Inr True)"
proof (cases "length (cpf_digits (CPF_init s)) = 11")
  case False
  then show ?thesis by (simp add: CPF_is_valid_def CPF_digits_def)
next
  case True
  obtain d where d: "map py_int (cpf_digits (CPF_init s)) = map Inr d"
    using clean_values [of s] by (auto simp: CPF_init_def CPF_clean_def)
  then have "length d = 11"
    using True map_eq_imp_length_eq by fastforce
  then obtain b where b: "CPF_validate_check_digits (CPF_init s) = Inr b"
    using CPF_check_digits_values [OF d] by simp
  show ?thesis
    using True first_char_check [OF True] b
    by (simp add: CPF_is_valid_def CPF_digits_def)
qed

lemma CNPJ_is_valid_init:
  "CNPJ_is_valid (CNPJ_init s)
   = Inr (length (CNPJ_digits (CNPJ_init s)) = 14
          \<and> \<not> all_identical (CNPJ_digits (CNPJ_init s))
          \<and> CNPJ_validate_check_digits (CNPJ_init s) = Inr True)"
proof (cases "length (cnpj_digits (CNPJ_init s)) = 14")
  case False
  then show ?thesis by (simp add: CNPJ_is_valid_def CNPJ_digits_def)
next
  case True
  obtain d where d: "map py_int (cnpj_digits (CNPJ_init s)) = map Inr d"
    using clean_values [of s] by (auto simp: CNPJ_init_def CNPJ_clean_def)
  then have "length d = 14"
    using True map_eq_imp_length_eq by fastforce
  then obtain b where b: "CNPJ_validate_check_digits (CNPJ_init s) = Inr b"
    using CNPJ_check_digits_values [OF d] by simp
  show ?thesis
    using True first_char_check [OF True] b
    by (simp add: CNPJ_is_valid_def CNPJ_digits_def)
qed

lemma clean_replicate:
  "re_sub_nondigits (replicate n c) = (if is_decimal c then replicate n c else [])"
  by (simp add: re_sub_nondigits_def)

lemma all_identical_replicate: "all_identical (replicate n c)"
  by (auto simp: all_identical_iff)

lemma CPF_identical_invalid: "CPF_is_valid (CPF_init (replicate 11 c)) = Inr False"
  unfolding CPF_is_valid_init
  by (simp add: CPF_digits_def CPF_init_def CPF_clean_def clean_replicate all_identical_replicate)

lemma CNPJ_identical_invalid: "CNPJ_is_valid (CNPJ_init (replicate 14 c)) = Inr False"
  unfolding CNPJ_is_valid_init
  by (simp add: CNPJ_digits_def CNPJ_init_def CNPJ_clean_def clean_replicate all_identical_replicate)

lemma short_input_check_digits:
  "CPF_validate_check_digits (CPF_init (ascii ''123.456.789'')) = Inl IndexError"
  "CNPJ_validate_check_digits (CNPJ_init (ascii ''11.222.333/0001'')) = Inl IndexError"
  by (simp_all add: ascii_simps cpf_eval cnpj_eval)

lemma digits_have_values:
  "\<exists>d. map py_int (CPF_digits (CPF_init s)) = map Inr d"
  "\<exists>d. map py_int (CNPJ_digits (CNPJ_init s)) = map Inr d"
  using clean_values [of s]
  by (simp_all add: CPF_digits_def CPF_init_def CPF_clean_def CNPJ_digits_def CNPJ_init_def
      CNPJ_clean_def)

lemma CPF_is_valid_checksum:
  assumes "map py_int (CPF_digits (CPF_init s)) = map Inr d"
  shows "CPF_is_valid (CPF_init s)
         = Inr (length (CPF_digits (CPF_init s)) = 11
                \<and> \<not> all_identical (CPF_digits (CPF_init s))
                \<and> d ! 9 = spec_cpf_first d \<and> d ! 10 = spec_cpf_second d)"
proof (cases "length (CPF_digits (CPF_init s)) = 11")
  case False
  then show ?thesis
    unfolding CPF_is_valid_init by simp
next
  case True
  have vals: "map py_int (cpf_digits (CPF_init s)) = map Inr d"
    using assms by (simp add: CPF_digits_def)
  then have "length (cpf_digits (CPF_init s)) = length d"
    by (rule map_eq_imp_length_eq)
  then have "length d = 11"
    using True by (simp add: CPF_digits_def)
  then have "CPF_validate_check_digits (CPF_init s)
             = Inr (d ! 9 = spec_cpf_first d \<and> d ! 10 = spec_cpf_second d)"
    using vals by (rule CPF_check_digits_values [rotated])
  then show ?thesis
    unfolding CPF_is_valid_init by simp
qed

lemma CNPJ_is_valid_checksum:
  assumes "map py_int (CNPJ_digits (CNPJ_init s)) = map Inr d"
  shows "CNPJ_is_valid (CNPJ_init s)
         = Inr (length (CNPJ_digits (CNPJ_init s)) = 14
                \<and> \<not> all_identical (CNPJ_digits (CNPJ_init s))
                \<and> d ! 12 = spec_cnpj_first d \<and> d ! 13 = spec_cnpj_second d)"
proof (cases "length (CNPJ_digits (CNPJ_init s)) = 14")
  case False
  then show ?thesis
    unfolding CNPJ_is_valid_init by simp
next
  case True
  have vals: "map py_int (cnpj_digits (CNPJ_init s)) = map Inr d"
    using assms by (simp add: CNPJ_digits_def)
  then have "length (cnpj_digits (CNPJ_init s)) = length d"
    by (rule map_eq_imp_length_eq)
  then have "length d = 14"
    using True by (simp add: CNPJ_digits_def)
  then have "CNPJ_validate_check_digits (CNPJ_init s)
             = Inr (d ! 12 = spec_cnpj_first d \<and> d ! 13 = spec_cnpj_second d)"
    using vals by (rule CNPJ_check_digits_values [rotated])
  then show ?thesis
    unfolding CNPJ_is_valid_init by simp
qed

text \<open>
  Claim C2. For every input string, \<open>is_valid\<close> returns true iff (1) the cleaned digits
  have length exactly 11 (CPF) or 14 (CNPJ), (2) they are not all one identical
  character, and (3) both check digits match the checksum algorithm: with \<open>d\<close> the
  values of the digits (every digit has one), \<open>d[9]\<close> and \<open>d[10]\<close> are the first and
  second CPF check digits computed from \<open>d\<close>, and \<open>d[12]\<close> and \<open>d[13]\<close> the CNPJ ones.
  Otherwise it returns false, and it never raises. Condition (3) is also what the
  check-digit verification of the code returns. The checks are made in this order:
  on a string of the wrong length the result is false although the check-digit
  verification, run on its own, raises \<open>IndexError\<close>. A string of 11 (or 14) copies
  of one character \<open>c\<close>, so of any digit \<open>'0'\<close> to \<open>'9'\<close>, is never valid.
\<close>

theorem is_valid_characterisation:
  "(\<exists>v. map py_int (CPF_digits (CPF_init s)) = map Inr v)
   \<and> (map py_int (CPF_digits (CPF_init s)) = map Inr d \<longrightarrow>
        CPF_is_valid (CPF_init s)
        = Inr (length (CPF_digits (CPF_init s)) = 11
               \<and> \<not> all_identical (CPF_digits (CPF_init s))
               \<and> d ! 9 = spec_cpf_first d \<and> d ! 10 = spec_cpf_second d))
   \<and> (\<exists>v. map py_int (CNPJ_digits (CNPJ_init s)) = map Inr v)
   \<and> (map py_int (CNPJ_digits (CNPJ_init s)) = map Inr d' \<longrightarrow>
        CNPJ_is_valid (CNPJ_init s)
        = Inr (length (CNPJ_digits (CNPJ_init s)) = 14
               \<and> \<not> all_identical (CNPJ_digits (CNPJ_init s))
               \<and> d' ! 12 = spec_cnpj_first d' \<and> d' ! 13 = spec_cnpj_second d'))
   \<and> CPF_is_valid (CPF_init s)
     = Inr (length (CPF_digits (CPF_init s)) = 11
            \<and> \<not> all_identical (CPF_digits (CPF_init s))
            \<and> CPF_validate_check_digits (CPF_init s) = Inr True)
   \<and> CNPJ_is_valid (CNPJ_init s)
     = Inr (length (CNPJ_digits (CNPJ_init s)) = 14
            \<and> \<not> all_identical (CNPJ_digits (CNPJ_init s))
            \<and> CNPJ_validate_check_digits (CNPJ_init s) = Inr True)
   \<and> CPF_validate_check_digits (CPF_init (ascii ''123.456.789'')) = Inl IndexError
   \<and> CNPJ_validate_check_digits (CNPJ_init (ascii ''11.222.333/0001'')) = Inl IndexError
   \<and> CPF_is_valid (CPF_init (replicate 11 c)) = Inr False
   \<and> CNPJ_is_valid (CNPJ_init (replicate 14 c)) = Inr False"
  using digits_have_values [of s] CPF_is_valid_checksum [of s d] CNPJ_is_valid_checksum [of s d']
    CPF_is_valid_init [of s] CNPJ_is_valid_init [of s] short_input_check_digits
    CPF_identical_invalid [of c] CNPJ_identical_invalid [of c]
  by blast

theorem is_valid_characterisation_witness:
  "map py_int (CPF_digits (CPF_init (ascii ''111.444.777-35''))) = map Inr [1, 1, 1, 4, 4, 4, 7, 7, 7, 3, 5]
   \<and> CPF_is_valid (CPF_init (ascii ''111.444.777-35'')) = Inr True
   \<and> length (CPF_digits (CPF_init (ascii ''111.444.777-35''))) = 11
   \<and> \<not> all_identical (CPF_digits (CPF_init (ascii ''111.444.777-35'')))
   \<and> [1, 1, 1, 4, 4, 4, 7, 7, 7, 3, 5] ! 9 = spec_cpf_first [1, 1, 1, 4, 4, 4, 7, 7, 7, 3, 5]
   \<and> [1, 1, 1, 4, 4, 4, 7, 7, 7, 3, 5] ! 10 = spec_cpf_second [1, 1, 1, 4, 4, 4, 7, 7, 7, 3, 5]
   \<and> map py_int (CNPJ_digits (CNPJ_init (ascii ''111.444.777-35'')))
       = map Inr [1, 1, 1, 4, 4, 4, 7, 7, 7, 3, 5]
   \<and> CNPJ_is_valid (CNPJ_init (ascii ''111.444.777-35'')) = Inr False
   \<and> CPF_validate_check_digits (CPF_init (ascii ''111.444.777-35'')) = Inr True
   \<and> CPF_is_valid (CPF_init (ascii ''77777777777'')) = Inr False"
proof -
  have r: "ascii ''77777777777'' = replicate 11 55"
    by (simp add: ascii_simps replicate_11)
  have v1: "map py_int (CPF_digits (CPF_init (ascii ''111.444.777-35'')))
            = map Inr [1, 1, 1, 4, 4, 4, 7, 7, 7, 3, 5]"
    by (simp add: ascii_simps cpf_eval)
  have v2: "map py_int (CNPJ_digits (CNPJ_init (ascii ''111.444.777-35'')))
            = map Inr [1, 1, 1, 4, 4, 4, 7, 7, 7, 3, 5]"
    by (simp add: ascii_simps cnpj_eval)
  have l: "length (CNPJ_digits (CNPJ_init (ascii ''111.444.777-35''))) = 11"
    by (simp add: ascii_simps cnpj_eval)
  show ?thesis
    using is_valid_characterisation [of "ascii ''111.444.777-35''"
        "[1, 1, 1, 4, 4, 4, 7, 7, 7, 3, 5]" "[1, 1, 1, 4, 4, 4, 7, 7, 7, 3, 5]" 55]
      vector_cpf_valid v1 v2 l
    unfolding r by simp
qed

section \<open>The generator\<close>

lemma py_str_digit: "0 \<le> v \<Longrightarrow> v \<le> 9 \<Longrightarrow> py_str v = [48 + nat v]"
  by (simp add: py_str_def str_nat.simps)

lemma join_digits:
  "\<forall>v \<in> set xs. 0 \<le> v \<and> v \<le> 9 \<Longrightarrow> concat (map py_str xs) = map (\<lambda>v. 48 + nat v) xs"
  by (induction xs) (simp_all add: py_str_digit)

lemma py_int_ascii_digit: "0 \<le> v \<Longrightarrow> v \<le> 9 \<Longrightarrow> py_int (48 + nat v) = Inr v"
proof -
  assume v: "0 \<le> v" "v \<le> 9"
  then have "48 + nat v < 1632"
    by linarith
  then show ?thesis
    using v by (simp add: py_int_low)
qed

lemma is_decimal_ascii_digit: "0 \<le> v \<Longrightarrow> v \<le> 9 \<Longrightarrow> is_decimal (48 + nat v)"
  using py_int_ascii_digit [of v] by (auto simp: py_int_def is_decimal_def split: option.splits)

lemma clean_ascii_digits:
  "\<forall>v \<in> set xs. 0 \<le> v \<and> v \<le> 9 \<Longrightarrow>
   re_sub_nondigits (map (\<lambda>v. 48 + nat v) xs) = map (\<lambda>v. 48 + nat v) xs"
  by (induction xs) (simp_all add: re_sub_nondigits_def is_decimal_ascii_digit)

lemma ascii_digits_values:
  "\<forall>v \<in> set xs. 0 \<le> v \<and> v \<le> 9 \<Longrightarrow> map py_int (map (\<lambda>v. 48 + nat v) xs) = map Inr xs"
  by (induction xs) (simp_all add: py_int_ascii_digit)

lemma getitem_in_range: "i < length xs \<Longrightarrow> getitem xs i = Inr (xs ! i)"
  by (simp add: getitem_def)

lemma cpf_digit_range:
  "0 \<le> (if x mod 11 = 10 then 0 else x mod 11) \<and> (if x mod 11 = 10 then 0 else x mod 11) \<le> 9"
  for x :: int
  by presburger

lemma cnpj_digit_range:
  "0 \<le> (if x mod 11 < 2 then 0 else 11 - x mod 11) \<and> (if x mod 11 < 2 then 0 else 11 - x mod 11) \<le> 9"
  for x :: int
  by presburger

lemma spec_cpf_first_range: "0 \<le> spec_cpf_first d \<and> spec_cpf_first d \<le> 9"
  unfolding spec_cpf_first_def Let_def by (rule cpf_digit_range)

lemma spec_cpf_second_range: "0 \<le> spec_cpf_second d \<and> spec_cpf_second d \<le> 9"
  unfolding spec_cpf_second_def Let_def by (rule cpf_digit_range)

lemma spec_cnpj_first_range: "0 \<le> spec_cnpj_first d \<and> spec_cnpj_first d \<le> 9"
  unfolding spec_cnpj_first_def Let_def by (rule cnpj_digit_range)

lemma spec_cnpj_second_range: "0 \<le> spec_cnpj_second d \<and> spec_cnpj_second d \<le> 9"
  unfolding spec_cnpj_second_def Let_def by (rule cnpj_digit_range)

text \<open>A check digit depends only on the digits before it.\<close>

lemma weighted_sum_prefix:
  "n \<le> length xs \<Longrightarrow> (\<Sum>i\<leftarrow>[0..<n]. (xs @ ys) ! i * w i) = (\<Sum>i\<leftarrow>[0..<n]. xs ! i * w i)" for w :: "nat \<Rightarrow> int"
  by (rule arg_cong [where f = sum_list]) (simp add: nth_append)

lemma spec_cpf_first_prefix: "9 \<le> length xs \<Longrightarrow> spec_cpf_first (xs @ ys) = spec_cpf_first xs"
  by (simp add: spec_cpf_first_def weighted_sum_prefix)

lemma spec_cpf_second_prefix: "10 \<le> length xs \<Longrightarrow> spec_cpf_second (xs @ ys) = spec_cpf_second xs"
  by (simp add: spec_cpf_second_def weighted_sum_prefix)

lemma spec_cnpj_first_prefix: "12 \<le> length xs \<Longrightarrow> spec_cnpj_first (xs @ ys) = spec_cnpj_first xs"
  by (simp add: spec_cnpj_first_def weighted_sum_prefix)

lemma spec_cnpj_second_prefix: "13 \<le> length xs \<Longrightarrow> spec_cnpj_second (xs @ ys) = spec_cnpj_second xs"
  by (simp add: spec_cnpj_second_def weighted_sum_prefix)

text \<open>What \<open>generate\<close> returns: the draws followed by the two computed digits.\<close>

lemma CPF_generate_result:
  assumes "length draws = 9" and "\<forall>v \<in> set draws. 0 \<le> v \<and> v \<le> 9"
  defines "c1 \<equiv> spec_cpf_first draws"
  defines "c2 \<equiv> spec_cpf_second (draws @ [c1])"
  shows "CPF_generate fmt draws = Inr (CPF_init (map (\<lambda>v. 48 + nat v) (draws @ [c1, c2])))"
proof -
  have s1: "py_sum (\<lambda>i. bind_e (getitem draws i) (\<lambda>b. Inr (b * (10 - int i)))) [0..<9] 0
            = Inr (\<Sum>i\<leftarrow>[0..<9]. draws ! i * (10 - int i))"
    by (subst py_sum_total [where g = "\<lambda>i. draws ! i * (10 - int i)"])
       (simp_all add: getitem_def assms(1))
  have s2: "py_sum (\<lambda>i. bind_e (getitem (draws @ [x]) i) (\<lambda>b. Inr (b * (11 - int i)))) [0..<10] 0
            = Inr (\<Sum>i\<leftarrow>[0..<10]. (draws @ [x]) ! i * (11 - int i))" for x
    by (subst py_sum_total [where g = "\<lambda>i. (draws @ [x]) ! i * (11 - int i)"])
       (simp_all add: getitem_def assms(1))
  have all: "\<forall>v \<in> set (draws @ [c1, c2]). 0 \<le> v \<and> v \<le> 9"
    using assms(2) spec_cpf_first_range [of draws] spec_cpf_second_range [of "draws @ [c1]"]
    by (auto simp: c1_def c2_def)
  have "CPF_generate fmt draws = Inr (CPF_init (concat (map py_str (draws @ [c1, c2]))))"
    unfolding CPF_generate_def Let_def s1 s2
    by (simp add: c1_def c2_def spec_cpf_first_def spec_cpf_second_def Let_def)
  then show ?thesis
    using join_digits [OF all] by simp
qed

lemma CNPJ_generate_result:
  assumes "length draws = 12" and "\<forall>v \<in> set draws. 0 \<le> v \<and> v \<le> 9"
  defines "c1 \<equiv> spec_cnpj_first draws"
  defines "c2 \<equiv> spec_cnpj_second (draws @ [c1])"
  shows "CNPJ_generate fmt draws = Inr (CNPJ_init (map (\<lambda>v. 48 + nat v) (draws @ [c1, c2])))"
proof -
  have s1: "py_sum (\<lambda>i. bind_e (getitem draws i)
                      (\<lambda>b. bind_e (getitem [5, 4, 3, 2, 9, 8, 7, 6, 5, 4, 3, 2] i) (\<lambda>w. Inr (b * w))))
              [0..<12] 0
            = Inr (\<Sum>i\<leftarrow>[0..<12]. draws ! i * w1 ! i)"
    by (subst py_sum_total [where g = "\<lambda>i. draws ! i * w1 ! i"])
       (simp_all add: getitem_def assms(1) w1_def)
  have s2: "py_sum (\<lambda>i. bind_e (getitem (draws @ [x]) i)
                      (\<lambda>b. bind_e (getitem [6, 5, 4, 3, 2, 9, 8, 7, 6, 5, 4, 3, 2] i) (\<lambda>w. Inr (b * w))))
              [0..<13] 0
            = Inr (\<Sum>i\<leftarrow>[0..<13]. (draws @ [x]) ! i * w2 ! i)" for x
    by (subst py_sum_total [where g = "\<lambda>i. (draws @ [x]) ! i * w2 ! i"])
       (simp_all add: getitem_def assms(1) w2_def)
  have all: "\<forall>v \<in> set (draws @ [c1, c2]). 0 \<le> v \<and> v \<le> 9"
    using assms(2) spec_cnpj_first_range [of draws] spec_cnpj_second_range [of "draws @ [c1]"]
    by (auto simp: c1_def c2_def)
  have "CNPJ_generate fmt draws = Inr (CNPJ_init (concat (map py_str (draws @ [c1, c2]))))"
    unfolding CNPJ_generate_def Let_def s1 s2
    by (simp add: c1_def c2_def spec_cnpj_first_def spec_cnpj_second_def Let_def)
  then show ?thesis
    using join_digits [OF all] by simp
qed

lemma all_identical_set: "all_identical xs \<longleftrightarrow> (\<forall>x \<in> set xs. \<forall>y \<in> set xs. x = y)"
proof
  assume "all_identical xs"
  then obtain c where "xs = replicate (length xs) c"
    unfolding all_identical_iff ..
  then have "set xs \<subseteq> {c}"
    by (metis set_replicate_conv_if empty_subsetI subset_refl)
  then show "\<forall>x \<in> set xs. \<forall>y \<in> set xs. x = y"
    by auto
next
  assume same: "\<forall>x \<in> set xs. \<forall>y \<in> set xs. x = y"
  show "all_identical xs"
  proof (cases xs)
    case Nil
    then show ?thesis by (simp add: all_identical_def)
  next
    case (Cons a as)
    then have "\<forall>y \<in> set xs. y = hd xs"
      using same by auto
    then have "replicate (length xs) (hd xs) = xs"
      by (rule replicate_length_same)
    then show ?thesis
      by (simp add: all_identical_def)
  qed
qed

lemma all_identical_ascii_digits:
  "\<forall>v \<in> set xs. 0 \<le> v \<Longrightarrow> all_identical (map (\<lambda>v. 48 + nat v) xs) = all_identical xs"
  unfolding all_identical_set by (auto simp: eq_nat_nat_iff)

lemma digit_cases:
  "0 \<le> v \<Longrightarrow> v \<le> 9 \<Longrightarrow>
   v = 0 \<or> v = 1 \<or> v = 2 \<or> v = 3 \<or> v = 4 \<or> v = 5 \<or> v = 6 \<or> v = 7 \<or> v = 8 \<or> v = 9"
  for v :: int
  by arith

lemma cpf_identical_draws_digits:
  assumes "0 \<le> v" and "v \<le> 9"
  shows "spec_cpf_first (replicate 9 v) = v" and "spec_cpf_second (replicate 9 v @ [v]) = v"
proof -
  have r: "replicate 9 v = [v, v, v, v, v, v, v, v, v]"
    by (simp add: eval_nat_numeral)
  show "spec_cpf_first (replicate 9 v) = v"
    using digit_cases [OF assms] unfolding r
    by (elim disjE) (simp_all add: spec_cpf_first_def upt_rec)
  show "spec_cpf_second (replicate 9 v @ [v]) = v"
    using digit_cases [OF assms] unfolding r
    by (elim disjE) (simp_all add: spec_cpf_second_def upt_rec)
qed

lemma cnpj_identical_draws_digit:
  assumes "0 \<le> v" and "v \<le> 9"
  shows "spec_cnpj_first (replicate 12 v) = v \<longleftrightarrow> v = 0"
proof -
  have r: "replicate 12 v = [v, v, v, v, v, v, v, v, v, v, v, v]"
    by (simp add: eval_nat_numeral)
  show ?thesis
    using digit_cases [OF assms] unfolding r
    by (elim disjE) (simp_all add: spec_cnpj_first_def w1_def upt_rec)
qed

lemma cnpj_zero_draws_digits:
  "spec_cnpj_first (replicate 12 0) = 0" "spec_cnpj_second (replicate 12 0 @ [0]) = 0"
  by (simp_all add: spec_cnpj_first_def spec_cnpj_second_def w1_def w2_def upt_rec eval_nat_numeral)

text \<open>
  The generated document always has the right length and right check digits. Whether
  it is valid is decided by the all-identical check alone: a CPF is rejected exactly
  when the nine draws are equal (its check digits then repeat the drawn digit), a CNPJ
  exactly when the twelve draws are all 0.
\<close>

lemma CPF_generate_valid:
  assumes "length draws = 9" and "\<forall>v \<in> set draws. 0 \<le> v \<and> v \<le> 9"
  shows "\<exists>d. CPF_generate fmt draws = Inr d \<and> length (cpf_digits d) = 11
             \<and> CPF_validate_check_digits d = Inr True
             \<and> CPF_is_valid d = Inr (\<not> all_identical draws)"
proof -
  define c1 where "c1 = spec_cpf_first draws"
  define c2 where "c2 = spec_cpf_second (draws @ [c1])"
  define D where "D = draws @ [c1, c2]"
  define d where "d = CPF_init (map (\<lambda>v. 48 + nat v) D)"
  have gen: "CPF_generate fmt draws = Inr d"
    using CPF_generate_result [OF assms] by (simp add: d_def D_def c1_def c2_def)
  have range: "\<forall>v \<in> set D. 0 \<le> v \<and> v \<le> 9"
    using assms(2) spec_cpf_first_range [of draws] spec_cpf_second_range [of "draws @ [c1]"]
    by (auto simp: D_def c1_def c2_def)
  have digits: "cpf_digits d = map (\<lambda>v. 48 + nat v) D"
    using clean_ascii_digits [OF range] by (simp add: d_def CPF_init_def CPF_clean_def)
  have len: "length D = 11"
    using assms(1) by (simp add: D_def)
  have vals: "map py_int (cpf_digits d) = map Inr D"
    using ascii_digits_values [OF range] digits by simp
  have "D ! 9 = c1" and "D ! 10 = c2"
    using assms(1) by (simp_all add: D_def nth_append)
  moreover have "spec_cpf_first D = c1"
    using assms(1) by (simp add: D_def c1_def spec_cpf_first_prefix)
  moreover have "spec_cpf_second D = c2"
    using assms(1) spec_cpf_second_prefix [of "draws @ [c1]" "[c2]"] by (simp add: D_def c2_def)
  ultimately have check: "CPF_validate_check_digits d = Inr True"
    using CPF_check_digits_values [OF vals len] by simp
  have "all_identical D \<longleftrightarrow> all_identical draws"
  proof
    assume "all_identical D"
    then show "all_identical draws"
      unfolding all_identical_set D_def by simp
  next
    assume "all_identical draws"
    then have rep: "draws = replicate 9 (hd draws)"
      using assms(1) by (simp add: all_identical_def)
    have "hd draws \<in> set draws"
      using assms(1) by (cases draws) auto
    then have v: "0 \<le> hd draws" "hd draws \<le> 9"
      using assms(2) by auto
    have "c1 = hd draws"
      using cpf_identical_draws_digits(1) [OF v] rep by (simp add: c1_def)
    moreover have "c2 = hd draws"
      using cpf_identical_draws_digits(2) [OF v] rep \<open>c1 = hd draws\<close> by (simp add: c2_def)
    ultimately have "D = replicate 9 (hd draws) @ [hd draws, hd draws]"
      using rep by (simp add: D_def)
    then show "all_identical D"
      unfolding all_identical_set by simp
  qed
  then have "all_identical (cpf_digits d) \<longleftrightarrow> all_identical draws"
    using all_identical_ascii_digits [of D] range digits by simp
  moreover have "d = CPF_init (cpf_original d)"
    by (simp add: d_def CPF_init_def)
  ultimately have "CPF_is_valid d = Inr (\<not> all_identical draws)"
    using CPF_is_valid_init [of "cpf_original d"] check digits len
    by (simp add: CPF_digits_def)
  then show ?thesis
    using gen check digits len by simp
qed

lemma CNPJ_generate_valid:
  assumes "length draws = 12" and "\<forall>v \<in> set draws. 0 \<le> v \<and> v \<le> 9"
  shows "\<exists>d. CNPJ_generate fmt draws = Inr d \<and> length (cnpj_digits d) = 14
             \<and> CNPJ_validate_check_digits d = Inr True
             \<and> CNPJ_is_valid d = Inr (draws \<noteq> replicate 12 0)"
proof -
  define c1 where "c1 = spec_cnpj_first draws"
  define c2 where "c2 = spec_cnpj_second (draws @ [c1])"
  define D where "D = draws @ [c1, c2]"
  define d where "d = CNPJ_init (map (\<lambda>v. 48 + nat v) D)"
  have gen: "CNPJ_generate fmt draws = Inr d"
    using CNPJ_generate_result [OF assms] by (simp add: d_def D_def c1_def c2_def)
  have range: "\<forall>v \<in> set D. 0 \<le> v \<and> v \<le> 9"
    using assms(2) spec_cnpj_first_range [of draws] spec_cnpj_second_range [of "draws @ [c1]"]
    by (auto simp: D_def c1_def c2_def)
  have digits: "cnpj_digits d = map (\<lambda>v. 48 + nat v) D"
    using clean_ascii_digits [OF range] by (simp add: d_def CNPJ_init_def CNPJ_clean_def)
  have len: "length D = 14"
    using assms(1) by (simp add: D_def)
  have vals: "map py_int (cnpj_digits d) = map Inr D"
    using ascii_digits_values [OF range] digits by simp
  have "D ! 12 = c1" and "D ! 13 = c2"
    using assms(1) by (simp_all add: D_def nth_append)
  moreover have "spec_cnpj_first D = c1"
    using assms(1) by (simp add: D_def c1_def spec_cnpj_first_prefix)
  moreover have "spec_cnpj_second D = c2"
    using assms(1) spec_cnpj_second_prefix [of "draws @ [c1]" "[c2]"] by (simp add: D_def c2_def)
  ultimately have check: "CNPJ_validate_check_digits d = Inr True"
    using CNPJ_check_digits_values [OF vals len] by simp
  have "all_identical D \<longleftrightarrow> draws = replicate 12 0"
  proof
    assume same: "all_identical D"
    have "hd draws \<in> set draws"
      using assms(1) by (cases draws) auto
    then have v: "0 \<le> hd draws" "hd draws \<le> 9" and "hd draws \<in> set D"
      using assms(2) by (auto simp: D_def)
    have "all_identical draws"
      using same unfolding all_identical_set D_def by simp
    then have rep: "draws = replicate 12 (hd draws)"
      using assms(1) by (simp add: all_identical_def)
    have "c1 \<in> set D"
      by (simp add: D_def)
    then have "c1 = hd draws"
      using same \<open>hd draws \<in> set D\<close> unfolding all_identical_set by blast
    then have "spec_cnpj_first (replicate 12 (hd draws)) = hd draws"
      using rep by (simp add: c1_def)
    then have "hd draws = 0"
      using cnpj_identical_draws_digit [OF v] by simp
    then show "draws = replicate 12 0"
      using rep by simp
  next
    assume zero: "draws = replicate 12 0"
    then have "c1 = 0"
      using cnpj_zero_draws_digits(1) by (simp add: c1_def)
    moreover have "c2 = 0"
      using cnpj_zero_draws_digits(2) zero \<open>c1 = 0\<close> by (simp add: c2_def)
    ultimately have "D = replicate 12 0 @ [0, 0]"
      using zero by (simp add: D_def)
    then show "all_identical D"
      unfolding all_identical_set by simp
  qed
  then have "all_identical (cnpj_digits d) \<longleftrightarrow> draws = replicate 12 0"
    using all_identical_ascii_digits [of D] range digits by simp
  moreover have "d = CNPJ_init (cnpj_original d)"
    by (simp add: d_def CNPJ_init_def)
  ultimately have "CNPJ_is_valid d = Inr (draws \<noteq> replicate 12 0)"
    using CNPJ_is_valid_init [of "cnpj_original d"] check digits len
    by (simp add: CNPJ_digits_def)
  then show ?thesis
    using gen check digits len by simp
qed

lemma CPF_generate_zeros:
  "CPF_generate fmt [0, 0, 0, 0, 0, 0, 0, 0, 0] = Inr (CPF_init (ascii ''00000000000''))"
proof -
  let ?draws = "[0, 0, 0, 0, 0, 0, 0, 0, 0] :: int list"
  have "CPF_generate fmt ?draws
        = Inr (CPF_init (map (\<lambda>v. 48 + nat v)
            (?draws @ [spec_cpf_first ?draws, spec_cpf_second (?draws @ [spec_cpf_first ?draws])])))"
    by (rule CPF_generate_result) simp_all
  moreover have "spec_cpf_first ?draws = 0"
    by (simp add: spec_cpf_first_def upt_rec)
  moreover have "spec_cpf_second (?draws @ [0]) = 0"
    by (simp add: spec_cpf_second_def upt_rec)
  ultimately show ?thesis
    by (simp add: ascii_simps)
qed

lemma CPF_generate_sevens:
  "CPF_generate fmt [7, 7, 7, 7, 7, 7, 7, 7, 7] = Inr (CPF_init (ascii ''77777777777''))"
proof -
  let ?draws = "[7, 7, 7, 7, 7, 7, 7, 7, 7] :: int list"
  have "CPF_generate fmt ?draws
        = Inr (CPF_init (map (\<lambda>v. 48 + nat v)
            (?draws @ [spec_cpf_first ?draws, spec_cpf_second (?draws @ [spec_cpf_first ?draws])])))"
    by (rule CPF_generate_result) simp_all
  moreover have "spec_cpf_first ?draws = 7"
    by (simp add: spec_cpf_first_def upt_rec)
  moreover have "spec_cpf_second (?draws @ [7]) = 7"
    by (simp add: spec_cpf_second_def upt_rec)
  ultimately show ?thesis
    by (simp add: ascii_simps)
qed

lemma CNPJ_generate_zeros:
  "CNPJ_generate fmt [0, 0, 0, 0, 0, 0, 0, 0, 0, 0, 0, 0] = Inr (CNPJ_init (ascii ''00000000000000''))"
proof -
  let ?draws = "[0, 0, 0, 0, 0, 0, 0, 0, 0, 0, 0, 0] :: int list"
  have "CNPJ_generate fmt ?draws
        = Inr (CNPJ_init (map (\<lambda>v. 48 + nat v)
            (?draws @ [spec_cnpj_first ?draws, spec_cnpj_second (?draws @ [spec_cnpj_first ?draws])])))"
    by (rule CNPJ_generate_result) simp_all
  moreover have "spec_cnpj_first ?draws = 0"
    by (simp add: spec_cnpj_first_def w1_def upt_rec)
  moreover have "spec_cnpj_second (?draws @ [0]) = 0"
    by (simp add: spec_cnpj_second_def w2_def upt_rec)
  ultimately show ?thesis
    by (simp add: ascii_simps)
qed

lemma identical_strings:
  "ascii ''00000000000'' = replicate 11 48"
  "ascii ''77777777777'' = replicate 11 55"
  "ascii ''00000000000000'' = replicate 14 48"
  by (simp_all add: ascii_simps replicate_11 replicate_14)

text \<open>
  Claim C1 (\<open>generate\<close> returns a valid document for every outcome of the random
  draws) fails when the draws are all equal. With nine draws of 0, \<open>CPF.generate\<close>
  returns the CPF \<open>00000000000\<close>, and with nine draws of 7 the CPF \<open>77777777777\<close>;
  with twelve draws of 0, \<open>CNPJ.generate\<close> returns the CNPJ \<open>00000000000000\<close>; and
  \<open>is_valid\<close> is false on each of them.
\<close>

theorem generate_identical_draws_invalid:
  "CPF_generate False [0, 0, 0, 0, 0, 0, 0, 0, 0] = Inr (CPF_init (ascii ''00000000000''))
   \<and> CPF_is_valid (CPF_init (ascii ''00000000000'')) = Inr False
   \<and> CPF_generate False [7, 7, 7, 7, 7, 7, 7, 7, 7] = Inr (CPF_init (ascii ''77777777777''))
   \<and> CPF_is_valid (CPF_init (ascii ''77777777777'')) = Inr False
   \<and> CNPJ_generate False [0, 0, 0, 0, 0, 0, 0, 0, 0, 0, 0, 0]
       = Inr (CNPJ_init (ascii ''00000000000000''))
   \<and> CNPJ_is_valid (CNPJ_init (ascii ''00000000000000'')) = Inr False"
  using CPF_generate_zeros [of False] CPF_generate_sevens [of False] CNPJ_generate_zeros [of False]
    CPF_identical_invalid [of 48] CPF_identical_invalid [of 55] CNPJ_identical_invalid [of 48]
  unfolding identical_strings by blast

section \<open>Normalisation\<close>

lemma clean_only_decimal: "\<forall>c \<in> set (re_sub_nondigits s). is_decimal c"
  by (simp add: re_sub_nondigits_def)

lemma clean_removes_exactly_nondigits: "re_sub_nondigits s = filter is_decimal s"
  by (simp add: re_sub_nondigits_def)

lemma clean_subseq: "subseq (re_sub_nondigits s) s"
  by (simp add: re_sub_nondigits_def)

lemma clean_idem: "re_sub_nondigits (re_sub_nondigits s) = re_sub_nondigits s"
  by (simp add: re_sub_nondigits_def)

text \<open>
  On input whose characters are all below U+0660 (so on any ASCII or Latin-1 input) the
  digits are exactly the characters \<open>'0'\<close> to \<open>'9'\<close> of the input, in order.
\<close>

lemma clean_low_input:
  assumes "\<forall>c \<in> set s. c < 1632"
  shows "re_sub_nondigits s = filter (\<lambda>c. 48 \<le> c \<and> c < 58) s"
  unfolding re_sub_nondigits_def
  using assms by (intro filter_cong) (simp_all add: is_decimal_low)

lemma ascii_digit_chars: "set (ascii ''0123456789'') = {c. 48 \<le> c \<and> c < 58}"
  by (auto simp: ascii_simps) arith

lemma clean_low_input_digits:
  assumes "\<forall>c \<in> set s. c < 1632"
  shows "set (re_sub_nondigits s) \<subseteq> set (ascii ''0123456789'')"
  unfolding clean_low_input [OF assms] ascii_digit_chars by auto

lemma arabic_indic_three: "unicode_decimal 1635 = Some 3"
  by (simp add: unicode_decimal_def nd_starts_def)

lemma arabic_indic_digits: "1632 \<le> c \<Longrightarrow> c < 1642 \<Longrightarrow> unicode_decimal c = Some (c - 1632)"
  by (simp add: unicode_decimal_def nd_starts_def)

text \<open>
  A consequence for validation: the CPF \<open>111.444.777-35\<close> written in Arabic-Indic
  digits (U+0661 for 1, and so on) is accepted by \<open>is_valid\<close>.
\<close>

lemma arabic_indic_cpf_valid:
  "CPF_is_valid (CPF_init [1633, 1633, 1633, 1636, 1636, 1636, 1639, 1639, 1639, 1635, 1637])
   = Inr True"
  by (simp add: CPF_is_valid_def CPF_validate_check_digits_def CPF_init_def CPF_clean_def
      re_sub_nondigits_def is_decimal_def py_int_def arabic_indic_digits int_at_def getitem_def
      upt_rec Let_def replicate_11)

text \<open>
  Claim C6 (the digits of a constructed document contain only the characters \<open>'0'\<close> to
  \<open>'9'\<close>) fails on a decimal digit of another script. The string of the one
  character U+0663, ARABIC-INDIC DIGIT THREE (code point 1635), is kept whole by
  the construction of a CPF and of a CNPJ, because \<open>\D\<close> does not match it; the
  character is none of \<open>'0'\<close> to \<open>'9'\<close>. Mixed with ASCII, the input \<open>a\<close>, U+0663, \<open>1\<close>
  gives the digits U+0663, \<open>1\<close>.
\<close>

theorem clean_keeps_non_ascii_digit:
  "CPF_digits (CPF_init [1635]) = [1635]
   \<and> CNPJ_digits (CNPJ_init [1635]) = [1635]
   \<and> 1635 \<notin> set (ascii ''0123456789'')
   \<and> CPF_digits (CPF_init [97, 1635, 49]) = [1635, 49]"
proof -
  have "is_decimal 1635"
    by (simp add: is_decimal_def arabic_indic_three)
  then show ?thesis
    by (simp add: CPF_digits_def CPF_init_def CPF_clean_def CNPJ_digits_def CNPJ_init_def
        CNPJ_clean_def re_sub_nondigits_def is_decimal_low ascii_digit_chars)
qed

section \<open>Equality and hash\<close>

text \<open>
  Claim C7. Two Document Values of the same kind compare equal iff their digits
  strings are equal, whatever the original strings are; the hash is the built-in hash
  \<open>h\<close> of the digits string alone, so equal values have equal hashes; and the CPF of
  \<open>111.444.777-35\<close> equals the CPF of \<open>11144477735\<close>.
\<close>

theorem eq_and_hash_by_digits:
  "CPF_eq x (CPF_object y) = (CPF_digits x = CPF_digits y)
   \<and> CPF_eq (x\<lparr>cpf_original := r\<rparr>) (CPF_object (y\<lparr>cpf_original := r'\<rparr>)) = CPF_eq x (CPF_object y)
   \<and> CPF_hash h x = h (CPF_digits x)
   \<and> (CPF_eq x (CPF_object y) \<longrightarrow> CPF_hash h x = CPF_hash h y)
   \<and> CPF_eq (CPF_init (ascii ''111.444.777-35'')) (CPF_object (CPF_init (ascii ''11144477735'')))
   \<and> CNPJ_eq u (CNPJ_object v) = (CNPJ_digits u = CNPJ_digits v)
   \<and> CNPJ_eq (u\<lparr>cnpj_original := r\<rparr>) (CNPJ_object (v\<lparr>cnpj_original := r'\<rparr>)) = CNPJ_eq u (CNPJ_object v)
   \<and> CNPJ_hash h u = h (CNPJ_digits u)
   \<and> (CNPJ_eq u (CNPJ_object v) \<longrightarrow> CNPJ_hash h u = CNPJ_hash h v)"
proof -
  have "CPF_eq (CPF_init (ascii ''111.444.777-35'')) (CPF_object (CPF_init (ascii ''11144477735'')))"
    by (simp add: CPF_eq_def ascii_simps cpf_eval)
  then show ?thesis
    by (simp add: CPF_eq_def CPF_hash_def CPF_digits_def CNPJ_eq_def CNPJ_hash_def CNPJ_digits_def)
qed

theorem eq_and_hash_by_digits_witness:
  "CPF_eq (CPF_init (ascii ''111.444.777-35'')) (CPF_object (CPF_init (ascii ''11144477735'')))
   \<and> cpf_original (CPF_init (ascii ''111.444.777-35'')) \<noteq> cpf_original (CPF_init (ascii ''11144477735''))
   \<and> CPF_hash (\<lambda>s. int (length s)) (CPF_init (ascii ''111.444.777-35''))
     = CPF_hash (\<lambda>s. int (length s)) (CPF_init (ascii ''11144477735''))
   \<and> CNPJ_eq (CNPJ_init (ascii ''11.222.333/0001-81'')) (CNPJ_object (CNPJ_init (ascii ''11222333000181'')))
   \<and> CNPJ_hash (\<lambda>s. int (length s)) (CNPJ_init (ascii ''11.222.333/0001-81''))
     = CNPJ_hash (\<lambda>s. int (length s)) (CNPJ_init (ascii ''11222333000181''))"
proof -
  have "CNPJ_digits (CNPJ_init (ascii ''11.222.333/0001-81''))
        = CNPJ_digits (CNPJ_init (ascii ''11222333000181''))"
    by (simp add: ascii_simps cnpj_eval)
  moreover have "cpf_original (CPF_init (ascii ''111.444.777-35''))
                 \<noteq> cpf_original (CPF_init (ascii ''11144477735''))"
    by (simp add: CPF_init_def ascii_simps)
  ultimately show ?thesis
    using eq_and_hash_by_digits [of "CPF_init (ascii ''111.444.777-35'')"
        "CPF_init (ascii ''11144477735'')" "[]" "[]" "\<lambda>s. int (length s)"
        "CNPJ_init (ascii ''11.222.333/0001-81'')" "CNPJ_init (ascii ''11222333000181'')"]
    by blast
qed

section \<open>Formatting\<close>

lemma slice_then_drop: "a \<le> b \<Longrightarrow> slice xs a b @ drop b xs = drop a xs"
proof -
  assume "a \<le> b"
  then have "drop b xs = drop (b - a) (drop a xs)"
    by simp
  then show ?thesis
    unfolding slice_def by (simp only: append_take_drop_id)
qed

lemma clean_slice:
  "re_sub_nondigits (slice (re_sub_nondigits s) a b) = slice (re_sub_nondigits s) a b"
  unfolding re_sub_nondigits_def slice_def
  by (rule filter_True) (auto dest!: in_set_takeD in_set_dropD)

lemma clean_drop:
  "re_sub_nondigits (drop a (re_sub_nondigits s)) = drop a (re_sub_nondigits s)"
  unfolding re_sub_nondigits_def
  by (rule filter_True) (auto dest!: in_set_dropD)

lemma clean_append: "re_sub_nondigits (xs @ ys) = re_sub_nondigits xs @ re_sub_nondigits ys"
  by (simp add: re_sub_nondigits_def)

lemma clean_separators:
  "re_sub_nondigits (ascii ''.'') = []" "re_sub_nondigits (ascii ''-'') = []"
  "re_sub_nondigits (ascii ''/'') = []"
  by (simp_all add: re_sub_nondigits_def ascii_simps is_decimal_low)

lemma CPF_formatted_roundtrip:
  assumes "length (CPF_digits (CPF_init s)) = 11"
  shows "\<exists>f. CPF_formatted (CPF_init s) = Inr f \<and> CPF_digits (CPF_init f) = CPF_digits (CPF_init s)"
proof -
  let ?ds = "re_sub_nondigits s"
  let ?f = "slice ?ds 0 3 @ ascii ''.'' @ slice ?ds 3 6 @ ascii ''.'' @ slice ?ds 6 9 @ ascii ''-''
            @ drop 9 ?ds"
  have "CPF_formatted (CPF_init s) = Inr ?f"
    using assms by (simp add: CPF_formatted_def CPF_init_def CPF_clean_def CPF_digits_def)
  moreover have "re_sub_nondigits ?f = slice ?ds 0 3 @ slice ?ds 3 6 @ slice ?ds 6 9 @ drop 9 ?ds"
    by (simp only: clean_append clean_slice clean_drop clean_separators append_Nil)
  moreover have "slice ?ds 0 3 @ slice ?ds 3 6 @ slice ?ds 6 9 @ drop 9 ?ds = ?ds"
    by (simp add: slice_then_drop)
  ultimately show ?thesis
    by (simp add: CPF_init_def CPF_clean_def CPF_digits_def)
qed

lemma CNPJ_formatted_roundtrip:
  assumes "length (CNPJ_digits (CNPJ_init s)) = 14"
  shows "\<exists>f. CNPJ_formatted (CNPJ_init s) = Inr f
             \<and> CNPJ_digits (CNPJ_init f) = CNPJ_digits (CNPJ_init s)"
proof -
  let ?ds = "re_sub_nondigits s"
  let ?f = "slice ?ds 0 2 @ ascii ''.'' @ slice ?ds 2 5 @ ascii ''.'' @ slice ?ds 5 8 @ ascii ''/''
            @ slice ?ds 8 12 @ ascii ''-'' @ drop 12 ?ds"
  have "CNPJ_formatted (CNPJ_init s) = Inr ?f"
    using assms by (simp add: CNPJ_formatted_def CNPJ_init_def CNPJ_clean_def CNPJ_digits_def)
  moreover have "re_sub_nondigits ?f
                 = slice ?ds 0 2 @ slice ?ds 2 5 @ slice ?ds 5 8 @ slice ?ds 8 12 @ drop 12 ?ds"
    by (simp only: clean_append clean_slice clean_drop clean_separators append_Nil)
  moreover have "slice ?ds 0 2 @ slice ?ds 2 5 @ slice ?ds 5 8 @ slice ?ds 8 12 @ drop 12 ?ds = ?ds"
    by (simp add: slice_then_drop)
  ultimately show ?thesis
    by (simp add: CNPJ_init_def CNPJ_clean_def CNPJ_digits_def)
qed

text \<open>
  Claim C8. For every Document Value whose digits have the right length, \<open>formatted\<close>
  succeeds, and constructing a document of the same kind from the formatted string
  gives back the same digits.
\<close>

theorem formatted_then_clean:
  "(length (CPF_digits (CPF_init s)) = 11 \<longrightarrow>
      (\<exists>f. CPF_formatted (CPF_init s) = Inr f \<and> CPF_digits (CPF_init f) = CPF_digits (CPF_init s)))
   \<and> (length (CNPJ_digits (CNPJ_init t)) = 14 \<longrightarrow>
      (\<exists>f. CNPJ_formatted (CNPJ_init t) = Inr f
           \<and> CNPJ_digits (CNPJ_init f) = CNPJ_digits (CNPJ_init t)))"
  using CPF_formatted_roundtrip [of s] CNPJ_formatted_roundtrip [of t] by blast

theorem formatted_then_clean_witness:
  "length (CPF_digits (CPF_init (ascii ''11144477735''))) = 11
   \<and> CPF_formatted (CPF_init (ascii ''11144477735'')) = Inr (ascii ''111.444.777-35'')
   \<and> CPF_digits (CPF_init (ascii ''111.444.777-35'')) = CPF_digits (CPF_init (ascii ''11144477735''))
   \<and> length (CNPJ_digits (CNPJ_init (ascii ''11222333000181''))) = 14
   \<and> CNPJ_formatted (CNPJ_init (ascii ''11222333000181'')) = Inr (ascii ''11.222.333/0001-81'')
   \<and> CNPJ_digits (CNPJ_init (ascii ''11.222.333/0001-81''))
     = CNPJ_digits (CNPJ_init (ascii ''11222333000181''))"
proof -
  have l1: "length (CPF_digits (CPF_init (ascii ''11144477735''))) = 11"
    by (simp add: ascii_simps cpf_eval)
  have l2: "length (CNPJ_digits (CNPJ_init (ascii ''11222333000181''))) = 14"
    by (simp add: ascii_simps cnpj_eval)
  have f1: "CPF_formatted (CPF_init (ascii ''11144477735'')) = Inr (ascii ''111.444.777-35'')"
    by (simp add: CPF_formatted_def slice_def ascii_simps cpf_eval)
  have f2: "CNPJ_formatted (CNPJ_init (ascii ''11222333000181'')) = Inr (ascii ''11.222.333/0001-81'')"
    by (simp add: CNPJ_formatted_def slice_def ascii_simps cnpj_eval)
  show ?thesis
    using formatted_then_clean [of "ascii ''11144477735''" "ascii ''11222333000181''"] l1 l2 f1 f2
    by auto
qed

section \<open>Errors\<close>

text \<open>\<open>str\<close> of a natural number is its decimal representation.\<close>

lemma str_nat_decimal:
  "foldl (\<lambda>a c. 10 * a + (c - 48)) 0 (str_nat n) = n \<and> set (str_nat n) \<subseteq> {48..57}"
proof (induction n rule: str_nat.induct)
  case (1 n)
  show ?case
  proof (cases "n < 10")
    case True
    then show ?thesis by (simp add: str_nat.simps [of n])
  next
    case False
    then have "str_nat n = str_nat (n div 10) @ [48 + n mod 10]"
      by (simp add: str_nat.simps [of n])
    moreover have "n mod 10 < 10"
      by simp
    ultimately show ?thesis
      using 1 [OF False] by auto
  qed
qed

lemma CPF_formatted_raises:
  "CPF_formatted self = Inl e \<longleftrightarrow>
     length (CPF_digits self) \<noteq> 11
     \<and> e = InvalidCPFError (ascii ''CPF must have 11 digits, got ''
                              @ py_str (int (length (CPF_digits self))))"
  by (auto simp: CPF_formatted_def CPF_digits_def)

lemma CNPJ_formatted_raises:
  "CNPJ_formatted self = Inl e \<longleftrightarrow>
     length (CNPJ_digits self) \<noteq> 14
     \<and> e = InvalidCNPJError (ascii ''CNPJ must have 14 digits, got ''
                               @ py_str (int (length (CNPJ_digits self))))"
  by (auto simp: CNPJ_formatted_def CNPJ_digits_def)

lemma CPF_str_total:
  "CPF_str self = (if length (CPF_digits self) = 11 then CPF_formatted self else Inr (CPF_digits self))"
  "\<exists>r. CPF_str self = Inr r"
  by (simp_all add: CPF_str_def CPF_formatted_def CPF_digits_def)

lemma CNPJ_str_total:
  "CNPJ_str self
   = (if length (CNPJ_digits self) = 14 then CNPJ_formatted self else Inr (CNPJ_digits self))"
  "\<exists>r. CNPJ_str self = Inr r"
  by (simp_all add: CNPJ_str_def CNPJ_formatted_def CNPJ_digits_def)

lemma is_valid_total:
  "\<exists>b. CPF_is_valid (CPF_init s) = Inr b" "\<exists>b. CPF_validate s = Inr b"
  "\<exists>b. CNPJ_is_valid (CNPJ_init s) = Inr b" "\<exists>b. CNPJ_validate s = Inr b"
  unfolding CPF_validate_def CNPJ_validate_def CPF_is_valid_init CNPJ_is_valid_init
  by simp_all

lemma is_valid_wrong_length:
  "length (CPF_digits (CPF_init s)) \<noteq> 11 \<Longrightarrow> CPF_is_valid (CPF_init s) = Inr False"
  "length (CPF_digits (CPF_init s)) \<noteq> 11 \<Longrightarrow> CPF_validate s = Inr False"
  "length (CNPJ_digits (CNPJ_init s)) \<noteq> 14 \<Longrightarrow> CNPJ_is_valid (CNPJ_init s) = Inr False"
  "length (CNPJ_digits (CNPJ_init s)) \<noteq> 14 \<Longrightarrow> CNPJ_validate s = Inr False"
  unfolding CPF_validate_def CNPJ_validate_def CPF_is_valid_init CNPJ_is_valid_init
  by simp_all

lemma generate_total:
  "length draws = 9 \<and> (\<forall>v \<in> set draws. 0 \<le> v \<and> v \<le> 9) \<Longrightarrow> \<exists>d. CPF_generate fmt draws = Inr d"
  "length draws = 12 \<and> (\<forall>v \<in> set draws. 0 \<le> v \<and> v \<le> 9) \<Longrightarrow> \<exists>d. CNPJ_generate fmt draws = Inr d"
  using CPF_generate_result [of draws fmt] CNPJ_generate_result [of draws fmt] by simp_all

text \<open>
  Claim C5. \<open>formatted\<close> raises iff the number of cleaned digits differs from 11
  (CPF) or 14 (CNPJ), and what it raises is \<open>InvalidCPFError\<close> (\<open>InvalidCNPJError\<close>) with
  the message \<open>CPF must have 11 digits, got n\<close> (\<open>CNPJ must have 14 digits, got n\<close>),
  \<open>n\<close> the actual length in decimal. No other public operation raises: construction
  is a total function; \<open>is_valid\<close> and \<open>validate\<close> always return a boolean, false on
  digits of the wrong length; the string conversion always returns, the formatted
  string when the length is right and the digits string otherwise; and \<open>generate\<close>
  returns a document on every outcome of the draws.
\<close>

theorem only_formatted_raises:
  "(CPF_formatted (CPF_init s) = Inl e \<longleftrightarrow>
      length (CPF_digits (CPF_init s)) \<noteq> 11
      \<and> e = InvalidCPFError (ascii ''CPF must have 11 digits, got ''
                               @ py_str (int (length (CPF_digits (CPF_init s))))))
   \<and> (CNPJ_formatted (CNPJ_init s) = Inl e' \<longleftrightarrow>
      length (CNPJ_digits (CNPJ_init s)) \<noteq> 14
      \<and> e' = InvalidCNPJError (ascii ''CNPJ must have 14 digits, got ''
                                 @ py_str (int (length (CNPJ_digits (CNPJ_init s))))))
   \<and> cpf_original (CPF_init s) = s \<and> CPF_digits (CPF_init s) = CPF_clean s
   \<and> cnpj_original (CNPJ_init s) = s \<and> CNPJ_digits (CNPJ_init s) = CNPJ_clean s
   \<and> (\<exists>b. CPF_is_valid (CPF_init s) = Inr b) \<and> (\<exists>b. CPF_validate s = Inr b)
   \<and> (\<exists>b. CNPJ_is_valid (CNPJ_init s) = Inr b) \<and> (\<exists>b. CNPJ_validate s = Inr b)
   \<and> (length (CPF_digits (CPF_init s)) \<noteq> 11 \<longrightarrow>
        CPF_is_valid (CPF_init s) = Inr False \<and> CPF_validate s = Inr False)
   \<and> (length (CNPJ_digits (CNPJ_init s)) \<noteq> 14 \<longrightarrow>
        CNPJ_is_valid (CNPJ_init s) = Inr False \<and> CNPJ_validate s = Inr False)
   \<and> CPF_str (CPF_init s)
       = (if length (CPF_digits (CPF_init s)) = 11 then CPF_formatted (CPF_init s)
          else Inr (CPF_digits (CPF_init s)))
   \<and> CNPJ_str (CNPJ_init s)
       = (if length (CNPJ_digits (CNPJ_init s)) = 14 then CNPJ_formatted (CNPJ_init s)
          else Inr (CNPJ_digits (CNPJ_init s)))
   \<and> (\<exists>r. CPF_str (CPF_init s) = Inr r) \<and> (\<exists>r. CNPJ_str (CNPJ_init s) = Inr r)
   \<and> (length draws = 9 \<and> (\<forall>v \<in> set draws. 0 \<le> v \<and> v \<le> 9) \<longrightarrow>
        (\<exists>d. CPF_generate fmt draws = Inr d))
   \<and> (length draws' = 12 \<and> (\<forall>v \<in> set draws'. 0 \<le> v \<and> v \<le> 9) \<longrightarrow>
        (\<exists>d. CNPJ_generate fmt draws' = Inr d))"
proof -
  have "cpf_original (CPF_init s) = s \<and> CPF_digits (CPF_init s) = CPF_clean s
        \<and> cnpj_original (CNPJ_init s) = s \<and> CNPJ_digits (CNPJ_init s) = CNPJ_clean s"
    by (simp add: CPF_init_def CPF_digits_def CNPJ_init_def CNPJ_digits_def)
  then show ?thesis
    using CPF_formatted_raises [of "CPF_init s" e] CNPJ_formatted_raises [of "CNPJ_init s" e']
      is_valid_total [of s] is_valid_wrong_length [of s]
      CPF_str_total [of "CPF_init s"] CNPJ_str_total [of "CNPJ_init s"]
      generate_total(1) [of draws fmt] generate_total(2) [of draws' fmt]
    by blast
qed

theorem only_formatted_raises_witness:
  "length (CPF_digits (CPF_init (ascii ''123456789''))) = 9
   \<and> CPF_formatted (CPF_init (ascii ''123456789''))
       = Inl (InvalidCPFError (ascii ''CPF must have 11 digits, got 9''))
   \<and> CPF_str (CPF_init (ascii ''123456789'')) = Inr (ascii ''123456789'')
   \<and> CPF_is_valid (CPF_init (ascii ''123456789'')) = Inr False
   \<and> CPF_validate (ascii ''123456789'') = Inr False
   \<and> length (CNPJ_digits (CNPJ_init (ascii ''123456789''))) = 9
   \<and> CNPJ_formatted (CNPJ_init (ascii ''123456789''))
       = Inl (InvalidCNPJError (ascii ''CNPJ must have 14 digits, got 9''))
   \<and> CNPJ_str (CNPJ_init (ascii ''123456789'')) = Inr (ascii ''123456789'')
   \<and> CNPJ_is_valid (CNPJ_init (ascii ''123456789'')) = Inr False
   \<and> CNPJ_validate (ascii ''123456789'') = Inr False
   \<and> (\<exists>d. CPF_generate False [1, 1, 1, 4, 4, 4, 7, 7, 7] = Inr d)
   \<and> (\<exists>d. CNPJ_generate False [1, 1, 2, 2, 2, 3, 3, 3, 0, 0, 0, 1] = Inr d)"
proof -
  let ?s = "ascii ''123456789''"
  have d1: "CPF_digits (CPF_init ?s) = ?s"
    by (simp add: ascii_simps cpf_eval)
  have d2: "CNPJ_digits (CNPJ_init ?s) = ?s"
    by (simp add: ascii_simps cnpj_eval)
  have l: "length ?s = 9"
    by (simp add: ascii_simps)
  have m1: "ascii ''CPF must have 11 digits, got '' @ py_str (int 9)
            = ascii ''CPF must have 11 digits, got 9''"
    by (simp add: ascii_simps py_str_digit)
  have m2: "ascii ''CNPJ must have 14 digits, got '' @ py_str (int 9)
            = ascii ''CNPJ must have 14 digits, got 9''"
    by (simp add: ascii_simps py_str_digit)
  have g1: "length [1, 1, 1, 4, 4, 4, 7, 7, 7 :: int] = 9
            \<and> (\<forall>v \<in> set [1, 1, 1, 4, 4, 4, 7, 7, 7 :: int]. 0 \<le> v \<and> v \<le> 9)"
    by simp
  have g2: "length [1, 1, 2, 2, 2, 3, 3, 3, 0, 0, 0, 1 :: int] = 12
            \<and> (\<forall>v \<in> set [1, 1, 2, 2, 2, 3, 3, 3, 0, 0, 0, 1 :: int]. 0 \<le> v \<and> v \<le> 9)"
    by simp
  have "CPF_formatted (CPF_init ?s) = Inl (InvalidCPFError (ascii ''CPF must have 11 digits, got 9''))"
    using only_formatted_raises [of ?s "InvalidCPFError (ascii ''CPF must have 11 digits, got 9'')"
        "InvalidCNPJError (ascii ''CNPJ must have 14 digits, got 9'')"
        "[1, 1, 1, 4, 4, 4, 7, 7, 7]" False "[1, 1, 2, 2, 2, 3, 3, 3, 0, 0, 0, 1]"]
    unfolding d1 d2 l m1 m2 by simp
  moreover have "CNPJ_formatted (CNPJ_init ?s)
                 = Inl (InvalidCNPJError (ascii ''CNPJ must have 14 digits, got 9''))"
    using only_formatted_raises [of ?s "InvalidCPFError (ascii ''CPF must have 11 digits, got 9'')"
        "InvalidCNPJError (ascii ''CNPJ must have 14 digits, got 9'')"
        "[1, 1, 1, 4, 4, 4, 7, 7, 7]" False "[1, 1, 2, 2, 2, 3, 3, 3, 0, 0, 0, 1]"]
    unfolding d1 d2 l m1 m2 by simp
  moreover have "CPF_str (CPF_init ?s) = Inr ?s \<and> CPF_is_valid (CPF_init ?s) = Inr False
                 \<and> CPF_validate ?s = Inr False
                 \<and> CNPJ_str (CNPJ_init ?s) = Inr ?s \<and> CNPJ_is_valid (CNPJ_init ?s) = Inr False
                 \<and> CNPJ_validate ?s = Inr False
                 \<and> (\<exists>d. CPF_generate False [1, 1, 1, 4, 4, 4, 7, 7, 7] = Inr d)
                 \<and> (\<exists>d. CNPJ_generate False [1, 1, 2, 2, 2, 3, 3, 3, 0, 0, 0, 1] = Inr d)"
    using only_formatted_raises [of ?s "InvalidCPFError (ascii ''CPF must have 11 digits, got 9'')"
        "InvalidCNPJError (ascii ''CNPJ must have 14 digits, got 9'')"
        "[1, 1, 1, 4, 4, 4, 7, 7, 7]" False "[1, 1, 2, 2, 2, 3, 3, 3, 0, 0, 0, 1]"] g1 g2
    unfolding d1 d2 l by simp
  ultimately show ?thesis
    using d1 d2 l by simp
qed

end
